theory Spec2Isabelle
  imports Complex_Main "HOL-Library.Stream" "HOL-Library.Multiset"
begin

section \<open>Python primitives used by the floor-plan generator\<close>

text \<open>
  The generator (\<^verbatim>\<open>src/floorplangenerator.py\<close>, class \<^verbatim>\<open>StyledPlanGenerator\<close>) works on
  Python integers and floats. Integers are modelled by \<^typ>\<open>int\<close>, floats by \<^typ>\<open>real\<close>
  (every float the layout engine computes from its integer pixel coordinates is a half-integer
  or a small decimal fraction of an integer, and is exact at the magnitudes of a plan).
\<close>

text \<open>\<^verbatim>\<open>int(x)\<close> on a float truncates toward zero.\<close>

definition py_int :: "real \<Rightarrow> int" where
  "py_int r = (if r < 0 then \<lceil>r\<rceil> else \<lfloor>r\<rfloor>)"

text \<open>\<^verbatim>\<open>str(n)\<close> on an integer: decimal digits, with a leading minus sign.\<close>

definition digit_char :: "nat \<Rightarrow> char" where
  "digit_char d = ''0123456789'' ! d"

fun str_nat :: "nat \<Rightarrow> string" where
  "str_nat n = (if n < 10 then [digit_char n] else str_nat (n div 10) @ [digit_char (n mod 10)])"

declare str_nat.simps [simp del]

definition str_int :: "int \<Rightarrow> string" where
  "str_int i = (if i < 0 then CHR ''-'' # str_nat (nat (- i)) else str_nat (nat i))"

subsection \<open>Float division by 1000 and \<^verbatim>\<open>round(x, 1)\<close>\<close>

text \<open>
  \<^verbatim>\<open>round(mm_val / 1000, 1)\<close> first forms the IEEE-754 double nearest to the quotient and
  then rounds the exact value of that double to one decimal (ties to even); its \<^verbatim>\<open>repr\<close> is
  that one-decimal number. The double matters when \<^verbatim>\<open>mm_val\<close> ends in 50: Python gives
  \<^verbatim>\<open>round(0.05, 1) = 0.1\<close> but \<^verbatim>\<open>round(4.05, 1) = 4.0\<close>. \<open>rhe_div n d\<close> is \<open>n / d\<close>
  rounded to the nearest integer, ties to even; \<open>double_div1000 a\<close> is the 53-bit
  significand \<open>m\<close> and the scale \<open>s\<close> of the double \<open>m / 2 ^ s\<close> nearest to \<open>a / 1000\<close>
  (for \<open>a < 2 ^ 62\<close>, far beyond any plan).
\<close>

definition rhe_div :: "nat \<Rightarrow> nat \<Rightarrow> nat" where
  "rhe_div n d =
     (let q = n div d; r = n mod d
      in if 2 * r < d then q else if d < 2 * r then q + 1
         else if even q then q else q + 1)"

fun bit_length :: "nat \<Rightarrow> nat" where
  "bit_length n = (if n = 0 then 0 else Suc (bit_length (n div 2)))"

declare bit_length.simps [simp del]

definition double_div1000 :: "nat \<Rightarrow> nat \<times> nat" where
  "double_div1000 a =
     (let l = bit_length a;
          s = (if 1000 * 2 ^ 52 \<le> a * 2 ^ (62 - l) then 62 - l else 63 - l)
      in (rhe_div (a * 2 ^ s) 1000, s))"

definition round1_tenths :: "nat \<Rightarrow> nat" where
  "round1_tenths a = (case double_div1000 a of (m, s) \<Rightarrow> rhe_div (10 * m) (2 ^ s))"

definition repr_round1 :: "int \<Rightarrow> string" where
  "repr_round1 mm =
     (let t = round1_tenths (nat \<bar>mm\<bar>)
      in (if mm < 0 then ''-'' else '''') @ str_nat (t div 10) @ ''.'' @ str_nat (t mod 10))"

section \<open>The unit formatter\<close>

text \<open>
  \<^verbatim>\<open>self.unit_mode = random.choice(['mm', 'mm_suffix', 'm', 'inch', 'ft'])\<close>: the five
  unit systems of a plan.
\<close>

datatype unit_mode = Mm | Mm_suffix | M | Inch | Ft

text \<open>
  \<^verbatim>\<open>_format_value(self, px_length)\<close>. \<^verbatim>\<open>mm_val / 25.4\<close> is evaluated exactly: the double
  for 25.4 lies below 25.4, so the float quotient never falls below an exact integer quotient
  and the truncation agrees.
\<close>

definition format_value :: "unit_mode \<Rightarrow> real \<Rightarrow> string" where
  "format_value mode px_length =
     (let mm_val = py_int (px_length * 10)
      in case mode of
           Mm \<Rightarrow> str_int mm_val
         | Mm_suffix \<Rightarrow> str_int mm_val @ '' mm''
         | M \<Rightarrow> repr_round1 mm_val @ ''m''
         | Inch \<Rightarrow> str_int (py_int (real_of_int mm_val / 25.4)) @ [CHR 0x22]
         | Ft \<Rightarrow>
             (let total_inches = py_int (real_of_int mm_val / 25.4);
                  ft = total_inches div 12;
                  inch = total_inches mod 12
              in str_int ft @ [CHR 0x27] @ str_int inch @ [CHR 0x22]))"


section \<open>The random source\<close>

text \<open>
  Every decision of the generator draws from Python's process-wide \<^verbatim>\<open>random\<close> module. The
  source is modelled as an infinite stream of raw draws, threaded through every operation;
  a statement for every stream is a statement for every seed. Each library call consumes one
  raw draw and maps it onto its range, so every outcome the library can return is the image of
  some draw:
  \<^item> \<^verbatim>\<open>random.randint(a, b)\<close> returns \<open>a + randbelow(b - a + 1)\<close> and raises
    \<^verbatim>\<open>ValueError\<close> on an empty range;
  \<^item> \<^verbatim>\<open>random.random()\<close> returns \<open>k / 2 ^ 53\<close> for a 53-bit integer \<open>k\<close>;
  \<^item> \<^verbatim>\<open>random.choice(seq)\<close> returns \<open>seq[randbelow(len(seq))]\<close> and raises
    \<^verbatim>\<open>IndexError\<close> on an empty sequence;
  \<^item> \<^verbatim>\<open>random.shuffle(x)\<close> is the Fisher-Yates loop
    \<^verbatim>\<open>for i in reversed(range(1, len(x))): j = randbelow(i + 1); x[i], x[j] = x[j], x[i]\<close>;
  \<^item> \<^verbatim>\<open>random.choices(population, weights)[0]\<close> bisects the cumulative weights at
    \<^verbatim>\<open>random() * total\<close>.
\<close>

type_synonym rng = "nat stream"

datatype py_error = ValueError | IndexError

definition randint :: "int \<Rightarrow> int \<Rightarrow> rng \<Rightarrow> py_error + (int \<times> rng)" where
  "randint a b g =
     (if b < a then Inl ValueError
      else Inr (a + int (shd g mod nat (b - a + 1)), stl g))"

definition random_value :: "nat \<Rightarrow> real" where
  "random_value k = real k / 2 ^ 53"

definition random_py :: "rng \<Rightarrow> real \<times> rng" where
  "random_py g = (random_value (shd g mod 2 ^ 53), stl g)"

definition choice :: "'a list \<Rightarrow> rng \<Rightarrow> py_error + ('a \<times> rng)" where
  "choice xs g =
     (if xs = [] then Inl IndexError else Inr (xs ! (shd g mod length xs), stl g))"

primrec shuffle_loop :: "nat \<Rightarrow> 'a list \<Rightarrow> rng \<Rightarrow> 'a list \<times> rng" where
  "shuffle_loop 0 xs g = (xs, g)"
| "shuffle_loop (Suc i) xs g =
     (let j = shd g mod (Suc i + 1)
      in shuffle_loop i (xs[Suc i := xs ! j, j := xs ! Suc i]) (stl g))"

definition shuffle :: "'a list \<Rightarrow> rng \<Rightarrow> 'a list \<times> rng" where
  "shuffle xs g = shuffle_loop (length xs - 1) xs g"

text \<open>
  The float literals the generator compares \<^verbatim>\<open>random.random()\<close> with are the IEEE-754
  doubles nearest to 0.4, 0.6 and 0.7 (0.5 is exact; \<^verbatim>\<open>0.4 + 0.3\<close> is the double 0.7).
\<close>

definition d0_4 :: real where "d0_4 = 3602879701896397 / 2 ^ 53"
definition d0_6 :: real where "d0_6 = 5404319552844595 / 2 ^ 53"
definition d0_7 :: real where "d0_7 = 6305039478318694 / 2 ^ 53"

section \<open>Data model\<close>

text \<open>
  Walls, windows and dimension records are Python dictionaries with fixed keys; the plan is the
  \<^verbatim>\<open>StyledPlanGenerator\<close> object, reduced to the attributes the layout engine reads and
  writes (colours, fonts and the matplotlib figure only affect the rendering). A dimension's
  \<^verbatim>\<open>dim_entry[link_type] = link_id\<close> is the tagged \<open>link\<close>.
\<close>

type_synonym rect = "int \<times> int \<times> int \<times> int"

type_synonym room = "int \<times> int \<times> int \<times> int \<times> string"

type_synonym bbox = "real \<times> real \<times> real \<times> real"

record wall =
  wid :: int
  coords :: "int \<times> int \<times> int \<times> int"
  is_shared :: bool
  has_opening :: bool
  room_center :: "real \<times> real"

record window =
  win_id :: int
  wall_id :: int
  win_coords :: "int \<times> int \<times> int \<times> int"
  win_length :: int

datatype link = Wall_id int | Window_id int

datatype pos_mode = Inline | Above | Below

record dimension =
  dim_id :: int
  val :: string
  position :: pos_mode
  bbox :: "int \<times> int \<times> int \<times> int"
  dim_line :: "int \<times> int \<times> int \<times> int"
  link :: link

record plan =
  width :: int
  height :: int
  base_offset :: int
  unit_mode :: unit_mode
  complexity_depth :: int
  walls :: "wall list"
  windows :: "window list"
  dimensions :: "dimension list"
  rooms :: "room list"
  text_bboxes :: "bbox list"
  wall_id_counter :: int
  window_id_counter :: int
  dim_id_counter :: int

text \<open>
  \<^verbatim>\<open>__init__\<close>: the style draws (offset, unit system, depth) are parameters; the data lists
  start empty and the identifier counters at 100, 2000 and 1.
\<close>

definition init_plan :: "int \<Rightarrow> int \<Rightarrow> int \<Rightarrow> unit_mode \<Rightarrow> int \<Rightarrow> plan" where
  "init_plan w h off mode depth =
     \<lparr>width = w, height = h, base_offset = off, unit_mode = mode, complexity_depth = depth,
      walls = [], windows = [], dimensions = [], rooms = [], text_bboxes = [],
      wall_id_counter = 100, window_id_counter = 2000, dim_id_counter = 1\<rparr>"

section \<open>Space partitioner\<close>

text \<open>
  \<^verbatim>\<open>int(w * 0.4)\<close> and \<^verbatim>\<open>int(w * 0.6)\<close>: for an integer \<open>w\<close> the float product rounds to
  the exact product whenever that is an integer, so the truncation is that of the exact
  decimal fraction.
\<close>

lemma randint_range:
  assumes "randint a b g = Inr (v, g')"
  shows "a \<le> v \<and> v \<le> b"
proof -
  from assms have ab: "a \<le> b" and v: "v = a + int (shd g mod nat (b - a + 1))"
    by (auto simp: randint_def split: if_splits)
  from ab have "0 < nat (b - a + 1)" by simp
  then have "shd g mod nat (b - a + 1) < nat (b - a + 1)" by (rule mod_less_divisor)
  then have "int (shd g mod nat (b - a + 1)) < b - a + 1" using ab by linarith
  with v show ?thesis by simp
qed

lemma py_int_04: "0 \<le> w \<Longrightarrow> py_int (real_of_int w * 0.4) = (2 * w) div 5"
proof -
  assume w: "0 \<le> w"
  have "real_of_int w * 0.4 = real_of_int (2 * w) / real_of_int 5" by simp
  then have "\<lfloor>real_of_int w * 0.4\<rfloor> = (2 * w) div 5"
    by (simp only: floor_divide_of_int_eq)
  with w show ?thesis by (simp add: py_int_def)
qed

lemma py_int_06: "0 \<le> w \<Longrightarrow> py_int (real_of_int w * 0.6) = (3 * w) div 5"
proof -
  assume w: "0 \<le> w"
  have "real_of_int w * 0.6 = real_of_int (3 * w) / real_of_int 5" by simp
  then have "\<lfloor>real_of_int w * 0.6\<rfloor> = (3 * w) div 5"
    by (simp only: floor_divide_of_int_eq)
  with w show ?thesis by (simp add: py_int_def)
qed

lemma split_range:
  assumes r: "randint (py_int (real_of_int w * 0.4)) (py_int (real_of_int w * 0.6)) g = Inr (s, g')"
    and w: "\<not> w < 160"
  shows "64 \<le> s \<and> s \<le> w - 64"
proof -
  from w have w0: "0 \<le> w" by simp
  from randint_range[OF r] have "(2 * w) div 5 \<le> s" "s \<le> (3 * w) div 5"
    unfolding py_int_04[OF w0] py_int_06[OF w0] by simp_all
  with w show ?thesis by linarith
qed

lemma split_pos:
  "randint (py_int (real_of_int w * 2 / 5)) (py_int (real_of_int w * 3 / 5)) g = Inr (s, g')
   \<Longrightarrow> w < 160 \<or> (0 < s \<and> s < w)"
  using split_range[of w g s g'] by auto

text \<open>
  \<^verbatim>\<open>_recursive_split(self, rect, depth)\<close>. The left operand of \<^verbatim>\<open>+\<close> is evaluated first,
  so the first half consumes its draws before the second. The depth is any integer: a
  negative depth never reaches 0 and the recursion ends on the size test alone.
\<close>

function recursive_split :: "rect \<Rightarrow> int \<Rightarrow> rng \<Rightarrow> py_error + (rect list \<times> rng)" where
  "recursive_split (x, y, w, h) depth g =
     (if depth = 0 \<or> w < 160 \<or> h < 160 then Inr ([(x, y, w, h)], g)
      else if w > h then
        (case randint (py_int (real_of_int w * 0.4)) (py_int (real_of_int w * 0.6)) g of
           Inl e \<Rightarrow> Inl e
         | Inr (split, g1) \<Rightarrow>
             (case recursive_split (x, y, split, h) (depth - 1) g1 of
                Inl e \<Rightarrow> Inl e
              | Inr (fst_half, g2) \<Rightarrow>
                  (case recursive_split (x + split, y, w - split, h) (depth - 1) g2 of
                     Inl e \<Rightarrow> Inl e
                   | Inr (snd_half, g3) \<Rightarrow> Inr (fst_half @ snd_half, g3))))
      else
        (case randint (py_int (real_of_int h * 0.4)) (py_int (real_of_int h * 0.6)) g of
           Inl e \<Rightarrow> Inl e
         | Inr (split, g1) \<Rightarrow>
             (case recursive_split (x, y, w, split) (depth - 1) g1 of
                Inl e \<Rightarrow> Inl e
              | Inr (fst_half, g2) \<Rightarrow>
                  (case recursive_split (x, y + split, w, h - split) (depth - 1) g2 of
                     Inl e \<Rightarrow> Inl e
                   | Inr (snd_half, g3) \<Rightarrow> Inr (fst_half @ snd_half, g3)))))"
  by pat_completeness auto
termination
  apply (relation "measure (\<lambda>((x, y, w, h), depth, g). nat (w + h))")
  apply simp
  apply (auto dest!: split_pos)
  done

declare recursive_split.simps [simp del]

section \<open>Room selection and the wall graph\<close>

text \<open>
  The culling step of \<^verbatim>\<open>generate_layout\<close>: the sort key is
  \<^verbatim>\<open>(r[0]-center_x)**2 + (r[1]-center_y)**2\<close> on the rectangle's \<open>x\<close> and \<open>y\<close>;
  \<^verbatim>\<open>sort(..., reverse=True)\<close> is stable, as is the insertion sort on the negated key.
\<close>

definition cull_key :: "int \<Rightarrow> int \<Rightarrow> rect \<Rightarrow> real" where
  "cull_key pw ph r =
     (case r of (x, y, w, h) \<Rightarrow>
        (real_of_int x - real_of_int pw / 2)\<^sup>2 + (real_of_int y - real_of_int ph / 2)\<^sup>2)"

definition cull_rooms :: "int \<Rightarrow> int \<Rightarrow> rect list \<Rightarrow> rng \<Rightarrow> py_error + (rect list \<times> rng)" where
  "cull_rooms pw ph raw_rooms g =
     (if length raw_rooms > 3 then
        (let sorted_rooms = sort_key (\<lambda>r. - cull_key pw ph r) raw_rooms
         in case randint 1 (max 1 (py_int (real (length raw_rooms) * 0.4))) g of
              Inl e \<Rightarrow> Inl e
            | Inr (num_to_remove, g1) \<Rightarrow> Inr (drop (nat num_to_remove) sorted_rooms, g1))
      else Inr (raw_rooms, g))"

definition room_labels :: "string list" where
  "room_labels = [''LIVING'', ''KITCHEN'', ''DINING'', ''BEDROOM'', ''MASTER BED'', ''BATH'',
     ''STORE'', ''STUDY'']"

definition label_rooms :: "string list \<Rightarrow> rect list \<Rightarrow> room list" where
  "label_rooms labels rs =
     map (\<lambda>(i, (x, y, w, h)). (x, y, w, h, labels ! (i mod length labels)))
       (zip [0..<length rs] rs)"

text \<open>
  \<^verbatim>\<open>_add_wall(self, x1, y1, x2, y2, rcx, rcy)\<close>: \<open>mark_dup\<close> is the scan for a near-duplicate,
  which flags the first one found and returns.
\<close>

fun mark_dup :: "int \<Rightarrow> int \<Rightarrow> int \<Rightarrow> int \<Rightarrow> wall list \<Rightarrow> wall list option" where
  "mark_dup x1 y1 x2 y2 [] = None"
| "mark_dup x1 y1 x2 y2 (w # ws) =
     (case coords w of (wx1, wy1, wx2, wy2) \<Rightarrow>
        if \<bar>wx1 - x1\<bar> < 5 \<and> \<bar>wx2 - x2\<bar> < 5 \<and> \<bar>wy1 - y1\<bar> < 5 \<and> \<bar>wy2 - y2\<bar> < 5
        then Some (w\<lparr>is_shared := True\<rparr> # ws)
        else map_option ((#) w) (mark_dup x1 y1 x2 y2 ws))"

definition add_wall :: "int \<Rightarrow> int \<Rightarrow> int \<Rightarrow> int \<Rightarrow> real \<Rightarrow> real \<Rightarrow> plan \<Rightarrow> plan" where
  "add_wall x1 y1 x2 y2 rcx rcy p =
     (case (if x1 > x2 \<or> y1 > y2 then (x2, y2, x1, y1) else (x1, y1, x2, y2)) of
        (x1, y1, x2, y2) \<Rightarrow>
          (case mark_dup x1 y1 x2 y2 (walls p) of
             Some ws \<Rightarrow> p\<lparr>walls := ws\<rparr>
           | None \<Rightarrow>
               p\<lparr>walls := walls p @
                    [\<lparr>wid = wall_id_counter p, coords = (x1, y1, x2, y2), is_shared = False,
                      has_opening = False, room_center = (rcx, rcy)\<rparr>],
                 wall_id_counter := wall_id_counter p + 1\<rparr>))"

definition add_room_walls :: "room \<Rightarrow> plan \<Rightarrow> plan" where
  "add_room_walls r p =
     (case r of (x, y, w, h, label) \<Rightarrow>
        (let room_cx = real_of_int x + real_of_int w / 2;
             room_cy = real_of_int y + real_of_int h / 2;
             p1 = add_wall x y (x + w) y room_cx room_cy p;
             p2 = add_wall (x + w) y (x + w) (y + h) room_cx room_cy p1;
             p3 = add_wall (x + w) (y + h) x (y + h) room_cx room_cy p2
         in add_wall x (y + h) x y room_cx room_cy p3))"

definition generate_layout :: "plan \<Rightarrow> rng \<Rightarrow> py_error + (plan \<times> rng)" where
  "generate_layout p g =
     (let margin = 150;
          initial_rect = (margin, margin, width p - 2 * margin, height p - 2 * margin)
      in case recursive_split initial_rect (complexity_depth p) g of
           Inl e \<Rightarrow> Inl e
         | Inr (raw_rooms, g1) \<Rightarrow>
             (case cull_rooms (width p) (height p) raw_rooms g1 of
                Inl e \<Rightarrow> Inl e
              | Inr (kept, g2) \<Rightarrow>
                  (case shuffle room_labels g2 of
                     (labels, g3) \<Rightarrow>
                       (let rs = label_rooms labels kept
                        in Inr (foldl (\<lambda>q r. add_room_walls r q) (p\<lparr>rooms := rs\<rparr>) rs, g3)))))"

section \<open>Opening placer\<close>

text \<open>
  \<^verbatim>\<open>add_windows\<close> visits the walls in order and mutates the visited wall only; \<open>window_step\<close>
  is one iteration of its loop, on the wall, the window list and the window counter.
\<close>

definition standard_sizes :: "int list" where
  "standard_sizes = [30, 45, 60, 75, 90]"

definition window_step ::
  "wall \<Rightarrow> window list \<Rightarrow> int \<Rightarrow> rng \<Rightarrow> py_error + (wall \<times> window list \<times> int \<times> rng)" where
  "window_step w wins counter g =
     (if is_shared w \<or> has_opening w then Inr (w, wins, counter, g)
      else case random_py g of
        (r, g1) \<Rightarrow>
          if r > d0_4 then
            (case coords w of
               (x1, y1, x2, y2) \<Rightarrow>
                 (let is_horiz = \<bar>y1 - y2\<bar> < 5;
                      wall_len = (if is_horiz then \<bar>x2 - x1\<bar> else \<bar>y2 - y1\<bar>);
                      valid_sizes = filter (\<lambda>s. s < wall_len - 20) standard_sizes
                  in if valid_sizes = [] then Inr (w, wins, counter, g1)
                     else case choice valid_sizes g1 of
                       Inl e \<Rightarrow> Inl e
                     | Inr (win_len, g2) \<Rightarrow>
                         (let mid_x = real_of_int (x1 + x2) / 2;
                              mid_y = real_of_int (y1 + y2) / 2;
                              c = (if is_horiz
                                   then (py_int (mid_x - real_of_int win_len / 2), py_int mid_y,
                                         py_int (mid_x + real_of_int win_len / 2), py_int mid_y)
                                   else (py_int mid_x, py_int (mid_y - real_of_int win_len / 2),
                                         py_int mid_x, py_int (mid_y + real_of_int win_len / 2)))
                          in Inr (w\<lparr>has_opening := True\<rparr>,
                               wins @ [\<lparr>win_id = counter, wall_id = wid w, win_coords = c,
                                        win_length = win_len\<rparr>],
                               counter + 1, g2))))
          else Inr (w, wins, counter, g1))"

fun add_windows_loop ::
  "wall list \<Rightarrow> window list \<Rightarrow> int \<Rightarrow> rng \<Rightarrow> py_error + (wall list \<times> window list \<times> int \<times> rng)" where
  "add_windows_loop [] wins counter g = Inr ([], wins, counter, g)"
| "add_windows_loop (w # ws) wins counter g =
     (case window_step w wins counter g of
        Inl e \<Rightarrow> Inl e
      | Inr (w', wins1, counter1, g1) \<Rightarrow>
          (case add_windows_loop ws wins1 counter1 g1 of
             Inl e \<Rightarrow> Inl e
           | Inr (ws', wins2, counter2, g2) \<Rightarrow> Inr (w' # ws', wins2, counter2, g2)))"

definition add_windows :: "plan \<Rightarrow> rng \<Rightarrow> py_error + (plan \<times> rng)" where
  "add_windows p g =
     (case add_windows_loop (walls p) (windows p) (window_id_counter p) g of
        Inl e \<Rightarrow> Inl e
      | Inr (ws, wins, counter, g1) \<Rightarrow>
          Inr (p\<lparr>walls := ws, windows := wins, window_id_counter := counter\<rparr>, g1))"

text \<open>
  \<^verbatim>\<open>add_doors\<close>. A candidate is \<^verbatim>\<open>([xa, xb], [ya, yb], widx)\<close>. \<open>find_wall\<close> is the inner
  loop over the existing walls (the position of the first wall that contains the candidate's
  midpoint and has no opening), \<open>find_target\<close> the outer loop over the shuffled candidates,
  which stops at the first candidate with a target. The drawing of the door only reads the
  state, but its \<^verbatim>\<open>random.randint\<close> consumes a draw and raises on a wall shorter than the
  door span.
\<close>

type_synonym candidate = "(int \<times> int) \<times> (int \<times> int) \<times> int"

definition door_size :: int where
  "door_size = 35"

definition door_skips :: "real \<Rightarrow> bool" where
  "door_skips r = (r > d0_6)"

definition door_candidates :: "room \<Rightarrow> candidate list" where
  "door_candidates r =
     (case r of (x, y, w_room, h_room, label) \<Rightarrow>
        [((x, x + w_room), (y + h_room, y + h_room), 0),
         ((x + w_room, x + w_room), (y, y + h_room), 1),
         ((x, x + w_room), (y, y), 2),
         ((x, x), (y, y + h_room), 3)])"

definition wall_hit :: "real \<Rightarrow> real \<Rightarrow> wall \<Rightarrow> bool" where
  "wall_hit cx cy w =
     (case coords w of (ex1, ey1, ex2, ey2) \<Rightarrow>
        real_of_int (min ex1 ex2) \<le> cx \<and> cx \<le> real_of_int (max ex1 ex2)
        \<and> real_of_int (min ey1 ey2) \<le> cy \<and> cy \<le> real_of_int (max ey1 ey2))"

fun find_wall :: "real \<Rightarrow> real \<Rightarrow> wall list \<Rightarrow> nat option" where
  "find_wall cx cy [] = None"
| "find_wall cx cy (w # ws) =
     (if wall_hit cx cy w \<and> \<not> has_opening w then Some 0
      else map_option Suc (find_wall cx cy ws))"

definition candidate_mid :: "candidate \<Rightarrow> real \<times> real" where
  "candidate_mid c =
     (case c of ((xa, xb), (ya, yb), widx) \<Rightarrow>
        (real_of_int (xa + xb) / 2, real_of_int (ya + yb) / 2))"

fun find_target :: "candidate list \<Rightarrow> wall list \<Rightarrow> (nat \<times> int) option" where
  "find_target [] ws = None"
| "find_target (c # cs) ws =
     (case candidate_mid c of
        (cx, cy) \<Rightarrow>
          (case find_wall cx cy ws of
             Some i \<Rightarrow> Some (i, snd (snd c))
           | None \<Rightarrow> find_target cs ws))"

definition door_step :: "room \<Rightarrow> wall list \<Rightarrow> rng \<Rightarrow> py_error + (wall list \<times> rng)" where
  "door_step r ws g =
     (case random_py g of
        (u, g1) \<Rightarrow>
          if door_skips u then Inr (ws, g1)
          else case shuffle (door_candidates r) g1 of
            (cands, g2) \<Rightarrow>
              (case find_target cands ws of
                 None \<Rightarrow> Inr (ws, g2)
               | Some (i, wall_idx) \<Rightarrow>
                   (case coords (ws ! i) of
                      (wx1, wy1, wx2, wy2) \<Rightarrow>
                        (case (if wall_idx = 0 \<or> wall_idx = 2
                               then randint (wx1 + 5) (wx2 - door_size - 5) g2
                               else randint (wy1 + 5) (wy2 - door_size - 5) g2) of
                           Inl e \<Rightarrow> Inl e
                         | Inr (d, g3) \<Rightarrow>
                             Inr (ws[i := (ws ! i)\<lparr>has_opening := True\<rparr>], g3)))))"

fun add_doors_loop :: "room list \<Rightarrow> wall list \<Rightarrow> rng \<Rightarrow> py_error + (wall list \<times> rng)" where
  "add_doors_loop [] ws g = Inr (ws, g)"
| "add_doors_loop (r # rs) ws g =
     (case door_step r ws g of
        Inl e \<Rightarrow> Inl e
      | Inr (ws1, g1) \<Rightarrow> add_doors_loop rs ws1 g1)"

definition add_doors :: "plan \<Rightarrow> rng \<Rightarrow> py_error + (plan \<times> rng)" where
  "add_doors p g =
     (case add_doors_loop (rooms p) (walls p) g of
        Inl e \<Rightarrow> Inl e
      | Inr (ws, g1) \<Rightarrow> Inr (p\<lparr>walls := ws\<rparr>, g1))"

section \<open>Dimension annotator\<close>

text \<open>
  \<^verbatim>\<open>_line_crosses_walls(self, p1, p2, my_wall_id)\<close>: the owner is skipped, then the two
  bounding-box filters, then the perpendicular test. Every caller passes integer endpoints
  (wall and window coordinates plus an integer offset).
\<close>

fun line_crosses_walls :: "int \<times> int \<Rightarrow> int \<times> int \<Rightarrow> int \<Rightarrow> wall list \<Rightarrow> bool" where
  "line_crosses_walls (x1, y1) (x2, y2) my_wall_id [] = False"
| "line_crosses_walls (x1, y1) (x2, y2) my_wall_id (w # ws) =
     (if wid w = my_wall_id then line_crosses_walls (x1, y1) (x2, y2) my_wall_id ws
      else case coords w of
        (wx1, wy1, wx2, wy2) \<Rightarrow>
          if min x1 x2 > max wx1 wx2 \<or> max x1 x2 < min wx1 wx2
          then line_crosses_walls (x1, y1) (x2, y2) my_wall_id ws
          else if min y1 y2 > max wy1 wy2 \<or> max y1 y2 < min wy1 wy2
          then line_crosses_walls (x1, y1) (x2, y2) my_wall_id ws
          else
            (let is_dim_horiz = \<bar>y1 - y2\<bar> < 1; is_wall_horiz = \<bar>wy1 - wy2\<bar> < 5
             in if is_dim_horiz \<and> \<not> is_wall_horiz then
                  (if min x1 x2 < wx1 \<and> wx1 < max x1 x2 \<and> min wy1 wy2 < y1 \<and> y1 < max wy1 wy2
                   then True
                   else line_crosses_walls (x1, y1) (x2, y2) my_wall_id ws)
                else if \<not> is_dim_horiz \<and> is_wall_horiz then
                  (if min y1 y2 < wy1 \<and> wy1 < max y1 y2 \<and> min wx1 wx2 < x1 \<and> x1 < max wx1 wx2
                   then True
                   else line_crosses_walls (x1, y1) (x2, y2) my_wall_id ws)
                else line_crosses_walls (x1, y1) (x2, y2) my_wall_id ws))"

text \<open>\<^verbatim>\<open>_check_collision(self, new_bbox)\<close>: the new box is inflated by 2 on each side.\<close>

definition boxes_overlap :: "bbox \<Rightarrow> bbox \<Rightarrow> bool" where
  "boxes_overlap n e =
     (case n of (nx1, ny1, nx2, ny2) \<Rightarrow>
        case e of (ex1, ey1, ex2, ey2) \<Rightarrow> nx1 < ex2 \<and> nx2 > ex1 \<and> ny1 < ey2 \<and> ny2 > ey1)"

definition inflate :: "bbox \<Rightarrow> bbox" where
  "inflate b = (case b of (nx1, ny1, nx2, ny2) \<Rightarrow> (nx1 - 2, ny1 - 2, nx2 + 2, ny2 + 2))"

definition check_collision :: "bbox \<Rightarrow> bbox list \<Rightarrow> bool" where
  "check_collision new_bbox boxes = list_ex (boxes_overlap (inflate new_bbox)) boxes"

text \<open>
  The rendered text box comes from matplotlib
  (\<^verbatim>\<open>t.get_window_extent(renderer)\<close>), outside the repository: it is the parameter
  \<open>render tx ty text rotation\<close>, the box of the text drawn at \<open>(tx, ty)\<close> in the plan's font.
  \<open>sim_bbox\<close> is the estimate the collision test uses: 8 units per character by 10 units,
  centred on the midpoint of the dimension line.
\<close>

type_synonym render = "real \<Rightarrow> real \<Rightarrow> string \<Rightarrow> int \<Rightarrow> bbox"

definition sim_bbox :: "int \<Rightarrow> int \<Rightarrow> int \<Rightarrow> int \<Rightarrow> string \<Rightarrow> bbox" where
  "sim_bbox x1 y1 x2 y2 text_val =
     (let mid_x = real_of_int (x1 + x2) / 2; mid_y = real_of_int (y1 + y2) / 2;
          is_vert = \<bar>x1 - x2\<bar> < 1;
          char_w = 8; char_h = 10;
          text_len_px = real (length text_val) * char_w
      in if is_vert
         then (mid_x - char_h / 2, mid_y - text_len_px / 2, mid_x + char_h / 2, mid_y + text_len_px / 2)
         else (mid_x - text_len_px / 2, mid_y - char_h / 2, mid_x + text_len_px / 2, mid_y + char_h / 2))"

definition choices_pos :: "rng \<Rightarrow> pos_mode \<times> rng" where
  "choices_pos g =
     (case random_py g of
        (r, g1) \<Rightarrow> (if r < d0_4 then Inline else if r < d0_7 then Above else Below, g1))"

definition text_anchor :: "pos_mode \<Rightarrow> bool \<Rightarrow> real \<Rightarrow> real \<Rightarrow> real \<times> real" where
  "text_anchor pos is_vert mid_x mid_y =
     (let shift = 9
      in case pos of
           Inline \<Rightarrow> (mid_x, mid_y)
         | Above \<Rightarrow> (if is_vert then mid_x - shift else mid_x, if is_vert then mid_y else mid_y + shift)
         | Below \<Rightarrow> (if is_vert then mid_x + shift else mid_x, if is_vert then mid_y else mid_y - shift))"

definition draw_dimension_safe ::
  "render \<Rightarrow> int \<Rightarrow> int \<Rightarrow> int \<Rightarrow> int \<Rightarrow> string \<Rightarrow> link \<Rightarrow> int \<Rightarrow> plan \<Rightarrow> rng \<Rightarrow> plan \<times> rng" where
  "draw_dimension_safe render x1 y1 x2 y2 text_val lnk owner_wall_id p g =
     (if line_crosses_walls (x1, y1) (x2, y2) owner_wall_id (walls p) then (p, g)
      else if check_collision (sim_bbox x1 y1 x2 y2 text_val) (text_bboxes p) then (p, g)
      else case choices_pos g of
        (pos, g1) \<Rightarrow>
          (let mid_x = real_of_int (x1 + x2) / 2; mid_y = real_of_int (y1 + y2) / 2;
               is_vert = \<bar>x1 - x2\<bar> < 1;
               rotation = (if is_vert then 90 else 0)
           in case text_anchor pos is_vert mid_x mid_y of
                (tx, ty) \<Rightarrow>
                  (case render tx ty text_val rotation of
                     (bx0, by0, bx1, by1) \<Rightarrow>
                       (p\<lparr>text_bboxes := text_bboxes p @ [(bx0, by0, bx1, by1)],
                          dimensions := dimensions p @
                            [\<lparr>dim_id = dim_id_counter p, val = text_val, position = pos,
                              bbox = (py_int bx0, py_int (real_of_int (height p) - by1),
                                      py_int bx1, py_int (real_of_int (height p) - by0)),
                              dim_line = (x1, y1, x2, y2), link = lnk\<rparr>],
                          dim_id_counter := dim_id_counter p + 1\<rparr>, g1))))"

text \<open>
  \<^verbatim>\<open>add_smart_dimensions\<close>. \<^verbatim>\<open>math.hypot\<close> is the Euclidean length; a segment is
  \<^verbatim>\<open>(sx1, sy1, sx2, sy2, link_type, link_id)\<close>, and \<open>draw_segments\<close> is the loop over the
  three segments of a wall with a window.
\<close>

datatype strategy = Detailed | Simple | Mixed

definition hypot :: "real \<Rightarrow> real \<Rightarrow> real" where
  "hypot a b = sqrt (a\<^sup>2 + b\<^sup>2)"

type_synonym segment = "int \<times> int \<times> int \<times> int \<times> link"

fun draw_segments ::
  "render \<Rightarrow> int \<Rightarrow> int \<Rightarrow> int \<Rightarrow> segment list \<Rightarrow> plan \<Rightarrow> rng \<Rightarrow> plan \<times> rng" where
  "draw_segments render base_dx base_dy owner [] p g = (p, g)"
| "draw_segments render base_dx base_dy owner ((sx1, sy1, sx2, sy2, lnk) # segs) p g =
     (let len = hypot (real_of_int (sx2 - sx1)) (real_of_int (sy2 - sy1))
      in if len < 5 then draw_segments render base_dx base_dy owner segs p g
         else case draw_dimension_safe render (sx1 + base_dx) (sy1 + base_dy) (sx2 + base_dx)
                     (sy2 + base_dy) (format_value (unit_mode p) len) lnk owner p g of
                (p1, g1) \<Rightarrow> draw_segments render base_dx base_dy owner segs p1 g1)"

definition wall_segments :: "wall \<Rightarrow> window \<Rightarrow> segment list" where
  "wall_segments w win =
     (case coords w of
        (wx1, wy1, wx2, wy2) \<Rightarrow>
          (case win_coords win of
             (win_x1, win_y1, win_x2, win_y2) \<Rightarrow>
               if \<bar>wy1 - wy2\<bar> < 5 then
                 (let points = sort [wx1, wx2, win_x1, win_x2]
                  in [(points ! 0, wy1, points ! 1, wy1, Wall_id (wid w)),
                      (points ! 1, wy1, points ! 2, wy1, Window_id (win_id win)),
                      (points ! 2, wy1, points ! 3, wy1, Wall_id (wid w))])
               else
                 (let points = sort [wy1, wy2, win_y1, win_y2]
                  in [(wx1, points ! 0, wx1, points ! 1, Wall_id (wid w)),
                      (wx1, points ! 1, wx1, points ! 2, Window_id (win_id win)),
                      (wx1, points ! 2, wx1, points ! 3, Wall_id (wid w))])))"

definition dimension_step ::
  "render \<Rightarrow> strategy \<Rightarrow> wall \<Rightarrow> plan \<Rightarrow> rng \<Rightarrow> py_error + (plan \<times> rng)" where
  "dimension_step render strat w p g =
     (if is_shared w then Inr (p, g)
      else case random_py g of
        (r, g1) \<Rightarrow>
          if r > d0_7 then Inr (p, g1)
          else case (if strat = Mixed
                     then (case random_py g1 of
                             (r2, g2) \<Rightarrow> (if r2 > 0.5 then Detailed else Simple, g2))
                     else (strat, g1)) of
            (wall_strat, g2) \<Rightarrow>
              (let attached_window = find (\<lambda>win. wall_id win = wid w) (windows p)
               in case coords w of
                 (wx1, wy1, wx2, wy2) \<Rightarrow>
                   (case randint (- 5) 5 g2 of
                      Inl e \<Rightarrow> Inl e
                    | Inr (jitter, g3) \<Rightarrow>
                        (let is_horizontal = \<bar>wy1 - wy2\<bar> < 5;
                             offset_dist = base_offset p + jitter;
                             wmx = real_of_int (wx1 + wx2) / 2;
                             wmy = real_of_int (wy1 + wy2) / 2;
                             base_dx = (if is_horizontal then 0
                                        else offset_dist * (if wmx > fst (room_center w) then 1 else - 1));
                             base_dy = (if is_horizontal
                                        then offset_dist * (if wmy > snd (room_center w) then 1 else - 1)
                                        else 0)
                         in case attached_window of
                              Some win \<Rightarrow>
                                if wall_strat = Detailed
                                then Inr (draw_segments render base_dx base_dy (wid w)
                                       (wall_segments w win) p g3)
                                else Inr (draw_dimension_safe render (wx1 + base_dx) (wy1 + base_dy)
                                       (wx2 + base_dx) (wy2 + base_dy)
                                       (format_value (unit_mode p)
                                          (hypot (real_of_int (wx2 - wx1)) (real_of_int (wy2 - wy1))))
                                       (Wall_id (wid w)) (wid w) p g3)
                            | None \<Rightarrow>
                                Inr (draw_dimension_safe render (wx1 + base_dx) (wy1 + base_dy)
                                       (wx2 + base_dx) (wy2 + base_dy)
                                       (format_value (unit_mode p)
                                          (hypot (real_of_int (wx2 - wx1)) (real_of_int (wy2 - wy1))))
                                       (Wall_id (wid w)) (wid w) p g3)))))"

fun dimensions_loop ::
  "render \<Rightarrow> strategy \<Rightarrow> wall list \<Rightarrow> plan \<Rightarrow> rng \<Rightarrow> py_error + (plan \<times> rng)" where
  "dimensions_loop render strat [] p g = Inr (p, g)"
| "dimensions_loop render strat (w # ws) p g =
     (case dimension_step render strat w p g of
        Inl e \<Rightarrow> Inl e
      | Inr (p1, g1) \<Rightarrow> dimensions_loop render strat ws p1 g1)"

definition add_smart_dimensions :: "render \<Rightarrow> plan \<Rightarrow> rng \<Rightarrow> py_error + (plan \<times> rng)" where
  "add_smart_dimensions render p g =
     (case choice [Detailed, Simple, Mixed] g of
        Inl e \<Rightarrow> Inl e
      | Inr (strat, g1) \<Rightarrow> dimensions_loop render strat (walls p) p g1)"

text \<open>
  \<^verbatim>\<open>generate\<close>, without the rendering and the export: the layout, the windows, the doors and
  the dimensions, in this order.
\<close>

definition generate :: "render \<Rightarrow> plan \<Rightarrow> rng \<Rightarrow> py_error + (plan \<times> rng)" where
  "generate render p g =
     (case generate_layout p g of
        Inl e \<Rightarrow> Inl e
      | Inr (p1, g1) \<Rightarrow>
          (case add_windows p1 g1 of
             Inl e \<Rightarrow> Inl e
           | Inr (p2, g2) \<Rightarrow>
               (case add_doors p2 g2 of
                  Inl e \<Rightarrow> Inl e
                | Inr (p3, g3) \<Rightarrow> add_smart_dimensions render p3 g3)))"

section \<open>Specification predicates\<close>

text \<open>
  A rectangle \<open>(x, y, w, h)\<close> as a set of points of the plane: \<open>in_rect\<close> is the closed
  rectangle, \<open>in_interior\<close> its interior. A list of leaves tiles a rectangle when it covers
  it exactly (\<open>covers\<close>) and no point lies in the interior of two leaves
  (\<open>interiors_disjoint\<close>).
\<close>

definition in_rect :: "rect \<Rightarrow> real \<times> real \<Rightarrow> bool" where
  "in_rect r p =
     (case r of (x, y, w, h) \<Rightarrow>
        case p of (px, py) \<Rightarrow>
          real_of_int x \<le> px \<and> px \<le> real_of_int (x + w) \<and> real_of_int y \<le> py \<and> py \<le> real_of_int (y + h))"

definition in_interior :: "rect \<Rightarrow> real \<times> real \<Rightarrow> bool" where
  "in_interior r p =
     (case r of (x, y, w, h) \<Rightarrow>
        case p of (px, py) \<Rightarrow>
          real_of_int x < px \<and> px < real_of_int (x + w) \<and> real_of_int y < py \<and> py < real_of_int (y + h))"

definition covers :: "rect \<Rightarrow> rect list \<Rightarrow> bool" where
  "covers r ls = (\<forall>p. in_rect r p \<longleftrightarrow> (\<exists>l \<in> set ls. in_rect l p))"

definition interiors_disjoint :: "rect list \<Rightarrow> bool" where
  "interiors_disjoint ls =
     (\<forall>i < length ls. \<forall>j < length ls. i \<noteq> j \<longrightarrow>
        (\<forall>p. \<not> (in_interior (ls ! i) p \<and> in_interior (ls ! j) p)))"

definition sub_rect :: "rect \<Rightarrow> rect \<Rightarrow> bool" where
  "sub_rect l r =
     (case l of (lx, ly, lw, lh) \<Rightarrow>
        case r of (x, y, w, h) \<Rightarrow> x \<le> lx \<and> lx + lw \<le> x + w \<and> y \<le> ly \<and> ly + lh \<le> y + h)"

text \<open>
  The room selector as the specification words it: the same culling step, with the rooms
  sorted by the squared distance of their centroid from the plan centre. It is compared with
  \<open>cull_rooms\<close>, the step of the source.
\<close>

definition centroid_key :: "int \<Rightarrow> int \<Rightarrow> rect \<Rightarrow> real" where
  "centroid_key pw ph r =
     (case r of (x, y, w, h) \<Rightarrow>
        (real_of_int x + real_of_int w / 2 - real_of_int pw / 2)\<^sup>2
        + (real_of_int y + real_of_int h / 2 - real_of_int ph / 2)\<^sup>2)"

definition cull_rooms_by_centroid ::
  "int \<Rightarrow> int \<Rightarrow> rect list \<Rightarrow> rng \<Rightarrow> py_error + (rect list \<times> rng)" where
  "cull_rooms_by_centroid pw ph raw_rooms g =
     (if length raw_rooms > 3 then
        (case randint 1 (max 1 (py_int (real (length raw_rooms) * 0.4))) g of
           Inl e \<Rightarrow> Inl e
         | Inr (k, g1) \<Rightarrow>
             Inr (drop (nat k) (sort_key (\<lambda>r. - centroid_key pw ph r) raw_rooms), g1))
      else Inr (raw_rooms, g))"

text \<open>
  The perpendicular-intersection rule of the specification: a horizontal dimension line
  crosses a non-horizontal wall when the wall's \<open>x\<close> lies strictly inside the line's
  \<open>x\<close>-range and the line's \<open>y\<close> strictly inside the wall's \<open>y\<close>-range, and symmetrically
  for a vertical line and a horizontal wall. \<open>owner_link w wins l\<close>: the link \<open>l\<close> of a
  dimension record names the wall \<open>w\<close> or a window hosted by \<open>w\<close>. \<open>extends_with p p' Q\<close>: the
  plan \<open>p'\<close> is \<open>p\<close> with dimension records appended that all satisfy \<open>Q\<close>, the walls and
  windows unchanged. \<open>line_clear owner ws d\<close>: the crossing test of the source rejects
  nothing on the line of \<open>d\<close>.
\<close>

definition perp_cross :: "int \<times> int \<times> int \<times> int \<Rightarrow> wall \<Rightarrow> bool" where
  "perp_cross l w =
     (case l of (x1, y1, x2, y2) \<Rightarrow>
        case coords w of (wx1, wy1, wx2, wy2) \<Rightarrow>
          (\<bar>y1 - y2\<bar> < 1 \<and> \<not> \<bar>wy1 - wy2\<bar> < 5
             \<and> min x1 x2 < wx1 \<and> wx1 < max x1 x2 \<and> min wy1 wy2 < y1 \<and> y1 < max wy1 wy2)
          \<or> (\<not> \<bar>y1 - y2\<bar> < 1 \<and> \<bar>wy1 - wy2\<bar> < 5
             \<and> min y1 y2 < wy1 \<and> wy1 < max y1 y2 \<and> min wx1 wx2 < x1 \<and> x1 < max wx1 wx2))"

definition owner_link :: "wall \<Rightarrow> window list \<Rightarrow> link \<Rightarrow> bool" where
  "owner_link w wins l =
     (l = Wall_id (wid w)
      \<or> (\<exists>win \<in> set wins. wall_id win = wid w \<and> l = Window_id (win_id win)))"

definition extends_with :: "plan \<Rightarrow> plan \<Rightarrow> (dimension \<Rightarrow> bool) \<Rightarrow> bool" where
  "extends_with p p' Q =
     (walls p' = walls p \<and> windows p' = windows p \<and> unit_mode p' = unit_mode p
      \<and> base_offset p' = base_offset p
      \<and> (\<exists>new. dimensions p' = dimensions p @ new \<and> list_all Q new))"

definition line_clear :: "int \<Rightarrow> wall list \<Rightarrow> dimension \<Rightarrow> bool" where
  "line_clear owner ws d =
     (case dim_line d of (x1, y1, x2, y2) \<Rightarrow> \<not> line_crosses_walls (x1, y1) (x2, y2) owner ws)"

section \<open>Properties of the unit formatter\<close>

lemma py_int_of_int [simp]: "py_int (real_of_int i) = i"
  by (simp add: py_int_def)

lemma str_nat_small: "n < 10 \<Longrightarrow> str_nat n = [digit_char n]"
  by (simp add: str_nat.simps)

lemma str_nat_big: "10 \<le> n \<Longrightarrow> str_nat n = str_nat (n div 10) @ [digit_char (n mod 10)]"
  by (subst str_nat.simps) simp

lemmas str_eval = str_int_def str_nat_small str_nat_big digit_char_def

lemma bit_length_0: "bit_length 0 = 0"
  by (simp add: bit_length.simps)

lemma bit_length_pos: "0 < n \<Longrightarrow> bit_length n = Suc (bit_length (n div 2))"
  by (subst bit_length.simps) simp

lemma mm_val_450: "py_int (450 * 10) = 4500"
proof -
  have "py_int (real_of_int 4500) = 4500" by (rule py_int_of_int)
  then show ?thesis by simp
qed

lemma inches_4500: "py_int (real_of_int 4500 / 25.4) = 177"
proof -
  have "\<lfloor>(4500::real) / 25.4\<rfloor> = 177" by (simp add: floor_eq_iff)
  then show ?thesis by (simp add: py_int_def)
qed

lemma round1_tenths_4500: "round1_tenths 4500 = 45"
proof -
  have "bit_length 4500 = 13" by (simp add: bit_length_0 bit_length_pos)
  then show ?thesis by (simp add: round1_tenths_def double_div1000_def rhe_div_def Let_def)
qed

lemma repr_round1_4500: "repr_round1 4500 = ''4.5''"
  by (simp add: repr_round1_def round1_tenths_4500 str_eval)

text \<open>
  C9: the unit formatter applied to a length of 450 pixel units returns \<open>4.5m\<close> in meter mode,
  \<open>14'9"\<close> in foot-inch mode (4500 mm, 177 whole inches, 14 feet 9 inches) and \<open>4500\<close> in raw
  millimeter mode.
\<close>

theorem format_value_450:
  "format_value M 450 = ''4.5m''
   \<and> format_value Ft 450 = [CHR ''1'', CHR ''4'', CHR 0x27, CHR ''9'', CHR 0x22]
   \<and> format_value Mm 450 = ''4500''"
  unfolding format_value_def Let_def mm_val_450 inches_4500 repr_round1_4500
  by (simp add: str_eval)

section \<open>Properties of the space partitioner\<close>

lemma randint_ok: "a \<le> b \<Longrightarrow> \<exists>v g'. randint a b g = Inr (v, g')"
  by (simp add: randint_def)

lemma split_randint_ok:
  assumes "160 \<le> w"
  shows "\<exists>s g'. randint (py_int (real_of_int w * 0.4)) (py_int (real_of_int w * 0.6)) g = Inr (s, g')"
proof -
  from assms have w0: "0 \<le> w" by simp
  have "(2 * w) div 5 \<le> (3 * w) div 5" using w0 by (intro zdiv_mono1) simp_all
  then show ?thesis unfolding py_int_04[OF w0] py_int_06[OF w0] by (rule randint_ok)
qed

lemma recursive_split_leaf:
  "depth = 0 \<or> w < 160 \<or> h < 160 \<Longrightarrow> recursive_split (x, y, w, h) depth g = Inr ([(x, y, w, h)], g)"
  by (subst recursive_split.simps) simp

lemma recursive_split_wide:
  assumes "depth \<noteq> 0" "160 \<le> w" "160 \<le> h" "h < w"
  shows "recursive_split (x, y, w, h) depth g =
     (case randint (py_int (real_of_int w * 0.4)) (py_int (real_of_int w * 0.6)) g of
           Inl e \<Rightarrow> Inl e
         | Inr (split, g1) \<Rightarrow>
             (case recursive_split (x, y, split, h) (depth - 1) g1 of
                Inl e \<Rightarrow> Inl e
              | Inr (fst_half, g2) \<Rightarrow>
                  (case recursive_split (x + split, y, w - split, h) (depth - 1) g2 of
                     Inl e \<Rightarrow> Inl e
                   | Inr (snd_half, g3) \<Rightarrow> Inr (fst_half @ snd_half, g3))))"
  using assms by (subst recursive_split.simps) (simp only: not_less[symmetric] if_False if_True simp_thms)

lemma recursive_split_tall:
  assumes "depth \<noteq> 0" "160 \<le> w" "160 \<le> h" "\<not> h < w"
  shows "recursive_split (x, y, w, h) depth g =
     (case randint (py_int (real_of_int h * 0.4)) (py_int (real_of_int h * 0.6)) g of
           Inl e \<Rightarrow> Inl e
         | Inr (split, g1) \<Rightarrow>
             (case recursive_split (x, y, w, split) (depth - 1) g1 of
                Inl e \<Rightarrow> Inl e
              | Inr (fst_half, g2) \<Rightarrow>
                  (case recursive_split (x, y + split, w, h - split) (depth - 1) g2 of
                     Inl e \<Rightarrow> Inl e
                   | Inr (snd_half, g3) \<Rightarrow> Inr (fst_half @ snd_half, g3))))"
  using assms by (subst recursive_split.simps) (simp only: not_less[symmetric] if_False if_True simp_thms)

lemma recursive_split_cases:
  assumes "recursive_split (x, y, w, h) depth g = Inr (ls, g')"
  obtains (leaf) "depth = 0 \<or> w < 160 \<or> h < 160" "ls = [(x, y, w, h)]" "g' = g"
  | (wide) s g1 l1 g2 l2 where "depth \<noteq> 0" "160 \<le> w" "160 \<le> h" "h < w" "64 \<le> s" "s \<le> w - 64"
      "recursive_split (x, y, s, h) (depth - 1) g1 = Inr (l1, g2)"
      "recursive_split (x + s, y, w - s, h) (depth - 1) g2 = Inr (l2, g')" "ls = l1 @ l2"
  | (tall) s g1 l1 g2 l2 where "depth \<noteq> 0" "160 \<le> w" "160 \<le> h" "\<not> h < w" "64 \<le> s" "s \<le> h - 64"
      "recursive_split (x, y, w, s) (depth - 1) g1 = Inr (l1, g2)"
      "recursive_split (x, y + s, w, h - s) (depth - 1) g2 = Inr (l2, g')" "ls = l1 @ l2"
proof (cases "depth = 0 \<or> w < 160 \<or> h < 160")
  case True
  with assms recursive_split_leaf[OF True, of x y g] show ?thesis by (auto intro: leaf)
next
  case False
  then have d: "depth \<noteq> 0" and w: "160 \<le> w" and h: "160 \<le> h" by auto
  show ?thesis
  proof (cases "h < w")
    case True
    from assms[unfolded recursive_split_wide[OF d w h True]]
    obtain s g1 l1 g2 l2 where
      r: "randint (py_int (real_of_int w * 0.4)) (py_int (real_of_int w * 0.6)) g = Inr (s, g1)"
      and a: "recursive_split (x, y, s, h) (depth - 1) g1 = Inr (l1, g2)"
      and b: "recursive_split (x + s, y, w - s, h) (depth - 1) g2 = Inr (l2, g')"
      and l: "ls = l1 @ l2"
      by (auto split: sum.splits prod.splits)
    from split_range[OF r] w have "64 \<le> s" "s \<le> w - 64" by auto
    then show ?thesis using d w h True a b l by (intro wide)
  next
    case hw: False
    from assms[unfolded recursive_split_tall[OF d w h hw]]
    obtain s g1 l1 g2 l2 where
      r: "randint (py_int (real_of_int h * 0.4)) (py_int (real_of_int h * 0.6)) g = Inr (s, g1)"
      and a: "recursive_split (x, y, w, s) (depth - 1) g1 = Inr (l1, g2)"
      and b: "recursive_split (x, y + s, w, h - s) (depth - 1) g2 = Inr (l2, g')"
      and l: "ls = l1 @ l2"
      by (auto split: sum.splits prod.splits)
    from split_range[OF r] h have "64 \<le> s" "s \<le> h - 64" by auto
    then show ?thesis using d w h hw a b l by (intro tall)
  qed
qed

lemma recursive_split_total: "\<exists>ls g'. recursive_split (x, y, w, h) depth g = Inr (ls, g')"
proof (induction "nat (w + h)" arbitrary: x y w h depth g rule: less_induct)
  case less
  show ?case
  proof (cases "depth = 0 \<or> w < 160 \<or> h < 160")
    case True
    then show ?thesis by (simp add: recursive_split_leaf)
  next
    case False
    then have d: "depth \<noteq> 0" and w: "160 \<le> w" and h: "160 \<le> h" by auto
    show ?thesis
    proof (cases "h < w")
      case True
      from split_randint_ok[OF w] obtain s g1 where
        r: "randint (py_int (real_of_int w * 0.4)) (py_int (real_of_int w * 0.6)) g = Inr (s, g1)"
        by blast
      from split_range[OF r] w have s: "64 \<le> s" "s \<le> w - 64" by auto
      from s h have "nat (s + h) < nat (w + h)" by simp
      from less[OF this] obtain l1 g2 where
        a: "recursive_split (x, y, s, h) (depth - 1) g1 = Inr (l1, g2)" by blast
      from s h have "nat (w - s + h) < nat (w + h)" by simp
      from less[OF this] obtain l2 g3 where
        b: "recursive_split (x + s, y, w - s, h) (depth - 1) g2 = Inr (l2, g3)" by blast
      show ?thesis unfolding recursive_split_wide[OF d w h True] r by (simp add: a b)
    next
      case hw: False
      from split_randint_ok[OF h] obtain s g1 where
        r: "randint (py_int (real_of_int h * 0.4)) (py_int (real_of_int h * 0.6)) g = Inr (s, g1)"
        by blast
      from split_range[OF r] h have s: "64 \<le> s" "s \<le> h - 64" by auto
      from s w have "nat (w + s) < nat (w + h)" by simp
      from less[OF this] obtain l1 g2 where
        a: "recursive_split (x, y, w, s) (depth - 1) g1 = Inr (l1, g2)" by blast
      from s w have "nat (w + (h - s)) < nat (w + h)" by simp
      from less[OF this] obtain l2 g3 where
        b: "recursive_split (x, y + s, w, h - s) (depth - 1) g2 = Inr (l2, g3)" by blast
      show ?thesis unfolding recursive_split_tall[OF d w h hw] r by (simp add: a b)
    qed
  qed
qed

lemma sub_rect_refl: "sub_rect r r"
  by (simp add: sub_rect_def split: prod.splits)

lemma sub_rect_trans: "sub_rect a b \<Longrightarrow> sub_rect b c \<Longrightarrow> sub_rect a c"
  by (auto simp: sub_rect_def split: prod.splits)

lemma interior_sub_rect: "sub_rect l r \<Longrightarrow> in_interior l p \<Longrightarrow> in_interior r p"
  by (auto simp: sub_rect_def in_interior_def split: prod.splits)

lemma interiors_disjoint_single: "interiors_disjoint [r]"
  by (simp add: interiors_disjoint_def)

lemma interiors_disjoint_append:
  assumes "interiors_disjoint l1" "interiors_disjoint l2"
    and "\<And>a b p. a \<in> set l1 \<Longrightarrow> b \<in> set l2 \<Longrightarrow> \<not> (in_interior a p \<and> in_interior b p)"
  shows "interiors_disjoint (l1 @ l2)"
  unfolding interiors_disjoint_def
proof (intro allI impI)
  fix i j p
  assume i: "i < length (l1 @ l2)" and j: "j < length (l1 @ l2)" and ij: "i \<noteq> j"
  consider (ll) "i < length l1" "j < length l1" | (lr) "i < length l1" "\<not> j < length l1"
    | (rl) "\<not> i < length l1" "j < length l1" | (rr) "\<not> i < length l1" "\<not> j < length l1"
    by blast
  then show "\<not> (in_interior ((l1 @ l2) ! i) p \<and> in_interior ((l1 @ l2) ! j) p)"
  proof cases
    case ll
    with assms(1) ij have "\<not> (in_interior (l1 ! i) p \<and> in_interior (l1 ! j) p)"
      unfolding interiors_disjoint_def by blast
    with ll show ?thesis by (simp add: nth_append)
  next
    case lr
    with j have "(l1 @ l2) ! i \<in> set l1" "(l1 @ l2) ! j \<in> set l2"
      by (simp_all add: nth_append)
    with assms(3) show ?thesis by blast
  next
    case rl
    with i have "(l1 @ l2) ! j \<in> set l1" "(l1 @ l2) ! i \<in> set l2"
      by (simp_all add: nth_append)
    with assms(3) show ?thesis by blast
  next
    case rr
    with i j ij have "i - length l1 < length l2" "j - length l1 < length l2"
      "i - length l1 \<noteq> j - length l1" by auto
    with assms(2) have "\<not> (in_interior (l2 ! (i - length l1)) p \<and> in_interior (l2 ! (j - length l1)) p)"
      unfolding interiors_disjoint_def by blast
    with rr show ?thesis by (simp add: nth_append)
  qed
qed

lemma halves_disjoint_x:
  "\<not> (in_interior (x, y, s, h) p \<and> in_interior (x + s, y', w', h') p)"
  by (auto simp: in_interior_def split: prod.splits)

lemma halves_disjoint_y:
  "\<not> (in_interior (x, y, w, s) p \<and> in_interior (x', y + s, w', h') p)"
  by (auto simp: in_interior_def split: prod.splits)

lemma covers_single: "covers r [r]"
  by (simp add: covers_def)

lemma covers_split_x:
  assumes "0 \<le> s" "s \<le> w" "covers (x, y, s, h) l1" "covers (x + s, y, w - s, h) l2"
  shows "covers (x, y, w, h) (l1 @ l2)"
proof -
  have "in_rect (x, y, w, h) p \<longleftrightarrow> in_rect (x, y, s, h) p \<or> in_rect (x + s, y, w - s, h) p" for p
    using assms(1,2) by (cases p) (auto simp: in_rect_def)
  with assms(3,4) show ?thesis by (auto simp: covers_def)
qed

lemma covers_split_y:
  assumes "0 \<le> s" "s \<le> h" "covers (x, y, w, s) l1" "covers (x, y + s, w, h - s) l2"
  shows "covers (x, y, w, h) (l1 @ l2)"
proof -
  have "in_rect (x, y, w, h) p \<longleftrightarrow> in_rect (x, y, w, s) p \<or> in_rect (x, y + s, w, h - s) p" for p
    using assms(1,2) by (cases p) (auto simp: in_rect_def)
  with assms(3,4) show ?thesis by (auto simp: covers_def)
qed

lemma recursive_split_tiles:
  "recursive_split (x, y, w, h) depth g = Inr (ls, g')
   \<Longrightarrow> covers (x, y, w, h) ls \<and> interiors_disjoint ls \<and> (\<forall>l \<in> set ls. sub_rect l (x, y, w, h))"
proof (induction "nat (w + h)" arbitrary: x y w h depth g ls g' rule: less_induct)
  case less
  from less.prems show ?case
  proof (cases rule: recursive_split_cases)
    case leaf
    then show ?thesis by (simp add: covers_single interiors_disjoint_single sub_rect_refl)
  next
    case (wide s g1 l1 g2 l2)
    from wide have "nat (s + h) < nat (w + h)" by simp
    from less.hyps[OF this wide(7)] have
      a: "covers (x, y, s, h) l1" "interiors_disjoint l1" "\<forall>l \<in> set l1. sub_rect l (x, y, s, h)"
      by auto
    from wide have "nat (w - s + h) < nat (w + h)" by simp
    from less.hyps[OF this wide(8)] have
      b: "covers (x + s, y, w - s, h) l2" "interiors_disjoint l2"
         "\<forall>l \<in> set l2. sub_rect l (x + s, y, w - s, h)"
      by auto
    have c: "covers (x, y, w, h) (l1 @ l2)"
      using wide(5,6) a(1) b(1) by (intro covers_split_x) auto
    have d: "interiors_disjoint (l1 @ l2)"
    proof (rule interiors_disjoint_append[OF a(2) b(2)])
      fix u v p assume "u \<in> set l1" "v \<in> set l2"
      with a(3) b(3) have "sub_rect u (x, y, s, h)" "sub_rect v (x + s, y, w - s, h)" by auto
      then have "in_interior u p \<Longrightarrow> in_interior (x, y, s, h) p"
        "in_interior v p \<Longrightarrow> in_interior (x + s, y, w - s, h) p"
        by (auto intro: interior_sub_rect)
      with halves_disjoint_x show "\<not> (in_interior u p \<and> in_interior v p)" by blast
    qed
    have "sub_rect (x, y, s, h) (x, y, w, h)" "sub_rect (x + s, y, w - s, h) (x, y, w, h)"
      using wide(5,6) by (simp_all add: sub_rect_def)
    with a(3) b(3) have "\<forall>l \<in> set (l1 @ l2). sub_rect l (x, y, w, h)"
      by (auto intro: sub_rect_trans)
    with c d wide(9) show ?thesis by simp
  next
    case (tall s g1 l1 g2 l2)
    from tall have "nat (w + s) < nat (w + h)" by simp
    from less.hyps[OF this tall(7)] have
      a: "covers (x, y, w, s) l1" "interiors_disjoint l1" "\<forall>l \<in> set l1. sub_rect l (x, y, w, s)"
      by auto
    from tall have "nat (w + (h - s)) < nat (w + h)" by simp
    from less.hyps[OF this tall(8)] have
      b: "covers (x, y + s, w, h - s) l2" "interiors_disjoint l2"
         "\<forall>l \<in> set l2. sub_rect l (x, y + s, w, h - s)"
      by auto
    have c: "covers (x, y, w, h) (l1 @ l2)"
      using tall(5,6) a(1) b(1) by (intro covers_split_y) auto
    have d: "interiors_disjoint (l1 @ l2)"
    proof (rule interiors_disjoint_append[OF a(2) b(2)])
      fix u v p assume "u \<in> set l1" "v \<in> set l2"
      with a(3) b(3) have "sub_rect u (x, y, w, s)" "sub_rect v (x, y + s, w, h - s)" by auto
      then have "in_interior u p \<Longrightarrow> in_interior (x, y, w, s) p"
        "in_interior v p \<Longrightarrow> in_interior (x, y + s, w, h - s) p"
        by (auto intro: interior_sub_rect)
      with halves_disjoint_y show "\<not> (in_interior u p \<and> in_interior v p)" by blast
    qed
    have "sub_rect (x, y, w, s) (x, y, w, h)" "sub_rect (x, y + s, w, h - s) (x, y, w, h)"
      using tall(5,6) by (simp_all add: sub_rect_def)
    with a(3) b(3) have "\<forall>l \<in> set (l1 @ l2). sub_rect l (x, y, w, h)"
      by (auto intro: sub_rect_trans)
    with c d tall(9) show ?thesis by simp
  qed
qed


lemma py_int_numeral [simp]: "py_int (numeral n) = numeral n"
  by (simp add: py_int_def)

lemma py_int_0 [simp]: "py_int 0 = 0"
  by (simp add: py_int_def)

lemmas split_eval = recursive_split_leaf recursive_split_wide recursive_split_tall randint_def

text \<open>
  C7: for every input rectangle, every depth and every random stream, the partitioner returns
  a list of leaves that exactly tiles the input rectangle: the union of the leaves is the
  rectangle (no gaps) and the interiors of two different leaves are disjoint.
\<close>

theorem recursive_split_tiling:
  "\<exists>ls g'. recursive_split r depth g = Inr (ls, g') \<and> covers r ls \<and> interiors_disjoint ls"
proof -
  obtain x y w h where r: "r = (x, y, w, h)" by (cases r) auto
  from recursive_split_total obtain ls g' where
    e: "recursive_split (x, y, w, h) depth g = Inr (ls, g')" by blast
  from recursive_split_tiles[OF e] e r show ?thesis by auto
qed

lemma split_900_depth1:
  "recursive_split (150, 150, 600, 600) 1 (sconst 0) =
     Inr ([(150, 150, 600, 240), (150, 390, 600, 360)], sconst 0)"
  by (simp add: split_eval)

theorem recursive_split_tiling_witness:
  "recursive_split (150, 150, 600, 600) 1 (sconst 0) =
     Inr ([(150, 150, 600, 240), (150, 390, 600, 360)], sconst 0)
   \<and> covers (150, 150, 600, 600) [(150, 150, 600, 240), (150, 390, 600, 360)]
   \<and> interiors_disjoint [(150, 150, 600, 240), (150, 390, 600, 360)]
   \<and> in_rect (150, 150, 600, 600) (200, 400) \<and> in_rect (150, 390, 600, 360) (200, 400)
   \<and> in_interior (150, 390, 600, 360) (200, 400) \<and> \<not> in_interior (150, 150, 600, 240) (200, 400)"
  using recursive_split_tiling[of "(150, 150, 600, 600)" 1 "sconst 0"]
  by (simp add: split_900_depth1 in_rect_def in_interior_def)

text \<open>
  The size a split guarantees: both dimensions at least 64 (40 percent of 160) and one of them
  at least 160 (the dimension that was not split).
\<close>

definition leaf_ok :: "rect \<Rightarrow> bool" where
  "leaf_ok l = (case l of (lx, ly, lw, lh) \<Rightarrow> 64 \<le> lw \<and> 64 \<le> lh \<and> (160 \<le> lw \<or> 160 \<le> lh))"

lemma recursive_split_leaf_ok:
  "recursive_split (x, y, w, h) depth g = Inr (ls, g') \<Longrightarrow> leaf_ok (x, y, w, h)
   \<Longrightarrow> \<forall>l \<in> set ls. leaf_ok l"
proof (induction "nat (w + h)" arbitrary: x y w h depth g ls g' rule: less_induct)
  case less
  from less.prems(1) show ?case
  proof (cases rule: recursive_split_cases)
    case leaf
    with less.prems(2) show ?thesis by simp
  next
    case (wide s g1 l1 g2 l2)
    from wide have m: "nat (s + h) < nat (w + h)" "nat (w - s + h) < nat (w + h)" by simp_all
    from wide have "leaf_ok (x, y, s, h)" "leaf_ok (x + s, y, w - s, h)"
      by (simp_all add: leaf_ok_def)
    with less.hyps[OF m(1) wide(7)] less.hyps[OF m(2) wide(8)] wide(9) show ?thesis by auto
  next
    case (tall s g1 l1 g2 l2)
    from tall have m: "nat (w + s) < nat (w + h)" "nat (w + (h - s)) < nat (w + h)" by simp_all
    from tall have "leaf_ok (x, y, w, s)" "leaf_ok (x, y + s, w, h - s)"
      by (simp_all add: leaf_ok_def)
    with less.hyps[OF m(1) tall(7)] less.hyps[OF m(2) tall(8)] tall(9) show ?thesis by auto
  qed
qed

text \<open>
  C3, amended: the partitioner always returns, and every leaf is either the input rectangle
  itself or has width and height at least 64 with one of them at least 160. The bound 160 is
  the size below which a rectangle is not split further; it is not a floor on the leaves.
\<close>

theorem recursive_split_leaf_sizes:
  "\<exists>ls g'. recursive_split (x, y, w, h) depth g = Inr (ls, g')
     \<and> (ls = [(x, y, w, h)] \<or> (\<forall>l \<in> set ls. leaf_ok l))"
proof -
  from recursive_split_total obtain ls g' where
    e: "recursive_split (x, y, w, h) depth g = Inr (ls, g')" by blast
  from e have "ls = [(x, y, w, h)] \<or> (\<forall>l \<in> set ls. leaf_ok l)"
  proof (cases rule: recursive_split_cases)
    case leaf
    then show ?thesis by simp
  next
    case (wide s g1 l1 g2 l2)
    from wide have "leaf_ok (x, y, s, h)" "leaf_ok (x + s, y, w - s, h)"
      by (simp_all add: leaf_ok_def)
    with recursive_split_leaf_ok[OF wide(7)] recursive_split_leaf_ok[OF wide(8)] wide(9)
    show ?thesis by auto
  next
    case (tall s g1 l1 g2 l2)
    from tall have "leaf_ok (x, y, w, s)" "leaf_ok (x, y + s, w, h - s)"
      by (simp_all add: leaf_ok_def)
    with recursive_split_leaf_ok[OF tall(7)] recursive_split_leaf_ok[OF tall(8)] tall(9)
    show ?thesis by auto
  qed
  with e show ?thesis by blast
qed

lemma split_900_depth4:
  "recursive_split (150, 150, 600, 600) 4 (sconst 0) =
     Inr ([(150, 150, 240, 96), (150, 246, 240, 144), (390, 150, 144, 240),
           (534, 150, 216, 96), (534, 246, 216, 144), (150, 390, 240, 144),
           (150, 534, 96, 216), (246, 534, 144, 216), (390, 390, 360, 144),
           (390, 534, 144, 216), (534, 534, 216, 216)], sconst 0)"
  by (simp add: split_eval)

theorem recursive_split_leaf_sizes_witness:
  "recursive_split (150, 150, 600, 600) 4 (sconst 0) =
     Inr ([(150, 150, 240, 96), (150, 246, 240, 144), (390, 150, 144, 240),
           (534, 150, 216, 96), (534, 246, 216, 144), (150, 390, 240, 144),
           (150, 534, 96, 216), (246, 534, 144, 216), (390, 390, 360, 144),
           (390, 534, 144, 216), (534, 534, 216, 216)], sconst 0)
   \<and> leaf_ok (150, 150, 240, 96) \<and> leaf_ok (534, 534, 216, 216)"
  using recursive_split_leaf_sizes[of 150 150 600 600 4 "sconst 0"]
  by (simp add: split_900_depth4 leaf_ok_def)

text \<open>
  C3 as stated fails: called with depth 1, the partitioner returns the rectangle
  \<open>(150, 150, 240, 96)\<close> as a leaf, of height 96, and this leaf is among the rooms of a
  900 by 900 plan of depth 4.
\<close>

theorem min_room_size_counterexample:
  "recursive_split (150, 150, 240, 96) 1 (sconst 0) = Inr ([(150, 150, 240, 96)], sconst 0)
   \<and> (150, 150, 240, 96) \<in> set (fst (projr (recursive_split (150, 150, 600, 600) 4 (sconst 0))))"
  by (simp add: split_900_depth4 recursive_split_leaf)

section \<open>Properties of the room selector\<close>

lemma cull_count: "py_int (real n * 0.4) = int (2 * n div 5)"
proof -
  have "py_int (real_of_int (int n) * 0.4) = (2 * int n) div 5"
    by (rule py_int_04) simp
  then show ?thesis by (simp add: zdiv_int)
qed

lemma split_900_depth2:
  "recursive_split (150, 150, 600, 600) 2 (120 ## 120 ## 120 ## sconst 0) =
     Inr ([(150, 150, 360, 360), (510, 150, 240, 360), (150, 510, 360, 240),
           (510, 510, 240, 240)], sconst 0)"
  by (simp add: split_eval)

lemma cull_rooms_large:
  assumes "length raw > 3"
  shows "cull_rooms pw ph raw g =
     Inr (drop (1 + shd g mod max 1 (2 * length raw div 5))
            (sort_key (\<lambda>r. - cull_key pw ph r) raw), stl g)"
proof -
  have m: "max 1 (int (2 * length raw div 5)) = int (max 1 (2 * length raw div 5))" by simp
  have n: "nat (int (max 1 (2 * length raw div 5)) - 1 + 1) = max 1 (2 * length raw div 5)" by simp
  show ?thesis
    using assms unfolding cull_rooms_def cull_count m randint_def n Let_def
    by (simp add: nat_add_distrib)
qed

text \<open>
  C4, amended: when partitioning yields more than 3 rooms, the rooms are sorted (stably) by
  the squared distance of their origin corner \<open>(x, y)\<close> from the plan centre, farthest first,
  and the first \<open>k\<close> rooms of that order are removed, where \<open>k\<close> is one more than the draw
  reduced modulo \<open>max 1 \<lfloor>0.4 * n\<rfloor>\<close>, hence in \<open>[1, max 1 \<lfloor>0.4 * n\<rfloor>]\<close>; with at most 3
  rooms nothing is removed and no draw is consumed.
\<close>

theorem cull_rooms_farthest_corner_first:
  "\<exists>k srt. mset srt = mset raw
     \<and> sorted_wrt (\<lambda>a b. cull_key pw ph a \<ge> cull_key pw ph b) srt
     \<and> (\<forall>c. filter (\<lambda>r. cull_key pw ph r = c) srt = filter (\<lambda>r. cull_key pw ph r = c) raw)
     \<and> k = 1 + shd g mod max 1 (2 * length raw div 5)
     \<and> 1 \<le> k \<and> k \<le> max 1 (2 * length raw div 5)
     \<and> (length raw > 3 \<longrightarrow> cull_rooms pw ph raw g = Inr (drop k srt, stl g))
     \<and> (length raw \<le> 3 \<longrightarrow> cull_rooms pw ph raw g = Inr (raw, g))"
proof -
  let ?srt = "sort_key (\<lambda>r. - cull_key pw ph r) raw"
  let ?m = "max 1 (2 * length raw div 5)"
  have "sorted (map (\<lambda>r. - cull_key pw ph r) ?srt)" by (rule sorted_sort_key)
  then have s: "sorted_wrt (\<lambda>a b. cull_key pw ph a \<ge> cull_key pw ph b) ?srt"
    by (simp add: sorted_map)
  have st: "filter (\<lambda>r. cull_key pw ph r = c) ?srt = filter (\<lambda>r. cull_key pw ph r = c) raw" for c
    using sort_key_stable[of "\<lambda>r. - cull_key pw ph r" "- c" raw] by simp
  have "shd g mod ?m < ?m" by (rule mod_less_divisor) simp
  then have k: "1 \<le> 1 + shd g mod ?m" "1 + shd g mod ?m \<le> ?m" by linarith+
  have small: "length raw \<le> 3 \<longrightarrow> cull_rooms pw ph raw g = Inr (raw, g)"
    by (simp add: cull_rooms_def)
  from s st k small cull_rooms_large[of raw pw ph g] show ?thesis
    by (intro exI[of _ "1 + shd g mod ?m"] exI[of _ ?srt]) simp
qed

lemma cull_900_depth2:
  "cull_rooms 900 900
     [(150, 150, 360, 360), (510, 150, 240, 360), (150, 510, 360, 240), (510, 510, 240, 240)]
     (sconst 0)
   = Inr ([(510, 150, 240, 360), (150, 510, 360, 240), (510, 510, 240, 240)], sconst 0)"
  by (simp add: cull_rooms_large cull_key_def)

lemma cull_by_centroid_900_depth2:
  "cull_rooms_by_centroid 900 900
     [(150, 150, 360, 360), (510, 150, 240, 360), (150, 510, 360, 240), (510, 510, 240, 240)]
     (sconst 0)
   = Inr ([(510, 150, 240, 360), (150, 510, 360, 240), (150, 150, 360, 360)], sconst 0)"
  by (simp add: cull_rooms_by_centroid_def centroid_key_def randint_def)

theorem cull_rooms_farthest_corner_first_witness:
  "length ([(150, 150, 360, 360), (510, 150, 240, 360), (150, 510, 360, 240), (510, 510, 240, 240)]
      :: rect list) > 3
   \<and> cull_rooms 900 900
       [(150, 150, 360, 360), (510, 150, 240, 360), (150, 510, 360, 240), (510, 510, 240, 240)]
       (sconst 0)
     = Inr ([(510, 150, 240, 360), (150, 510, 360, 240), (510, 510, 240, 240)], sconst 0)
   \<and> length ([(150, 150, 600, 240), (150, 390, 600, 360)] :: rect list) \<le> 3
   \<and> cull_rooms 900 900 [(150, 150, 600, 240), (150, 390, 600, 360)] (sconst 0)
     = Inr ([(150, 150, 600, 240), (150, 390, 600, 360)], sconst 0)"
proof -
  let ?r4 = "[(150, 150, 360, 360), (510, 150, 240, 360), (150, 510, 360, 240), (510, 510, 240, 240)]
    :: rect list"
  let ?r2 = "[(150, 150, 600, 240), (150, 390, 600, 360)] :: rect list"
  have l4: "length ?r4 > 3" by simp
  have l2: "length ?r2 \<le> 3" by simp
  from cull_rooms_farthest_corner_first[of ?r2 900 900 "sconst 0"]
  have "length ?r2 \<le> 3 \<longrightarrow> cull_rooms 900 900 ?r2 (sconst 0) = Inr (?r2, sconst 0)"
    by (elim exE conjE)
  with l2 have small: "cull_rooms 900 900 ?r2 (sconst 0) = Inr (?r2, sconst 0)" by (rule mp[rotated])
  from l4 l2 small cull_900_depth2 show ?thesis by (intro conjI)
qed

text \<open>
  C4 as stated fails: on the four rooms of a 900 by 900 plan of depth 2 (all three splits at
  60 percent) the source removes the top-left room \<open>(150, 150, 360, 360)\<close>, whose corner is
  farthest from the centre, while sorting by centroid removes \<open>(510, 510, 240, 240)\<close>.
\<close>

theorem cull_by_centroid_counterexample:
  "cull_rooms 900 900
     (fst (projr (recursive_split (150, 150, 600, 600) 2 (120 ## 120 ## 120 ## sconst 0))))
     (sconst 0)
   = Inr ([(510, 150, 240, 360), (150, 510, 360, 240), (510, 510, 240, 240)], sconst 0)
   \<and> cull_rooms_by_centroid 900 900
     (fst (projr (recursive_split (150, 150, 600, 600) 2 (120 ## 120 ## 120 ## sconst 0))))
     (sconst 0)
   = Inr ([(510, 150, 240, 360), (150, 510, 360, 240), (150, 150, 360, 360)], sconst 0)"
  by (simp add: split_900_depth2 cull_900_depth2 cull_by_centroid_900_depth2)

section \<open>Properties of the wall graph of a depth-1 plan\<close>

lemma shuffle_loop_numeral:
  "shuffle_loop (numeral n) xs g =
     (let j = shd g mod (numeral n + 1)
      in shuffle_loop (pred_numeral n) (xs[numeral n := xs ! j, j := xs ! numeral n]) (stl g))"
  by (simp add: numeral_eq_Suc)

lemma list_update_Cons_numeral: "(x # xs)[numeral n := v] = x # xs[pred_numeral n := v]"
  by (simp add: numeral_eq_Suc)

lemmas shuffle_eval = shuffle_def shuffle_loop_numeral list_update_Cons_numeral Let_def

lemma length_label_rooms: "length (label_rooms labels rs) = length rs"
  by (simp add: label_rooms_def)

lemma label_rooms_two:
  "\<exists>la lb. label_rooms labels [(x1, y1, w1, h1), (x2, y2, w2, h2)]
     = [(x1, y1, w1, h1, la), (x2, y2, w2, h2, lb)]"
  by (simp add: label_rooms_def)

text \<open>The identifier, the endpoints and the two flags of a wall.\<close>

definition wall_summary :: "wall \<Rightarrow> int \<times> (int \<times> int \<times> int \<times> int) \<times> bool \<times> bool" where
  "wall_summary w = (wid w, coords w, is_shared w, has_opening w)"

lemma two_room_walls:
  assumes s: "64 \<le> s" "s \<le> 536" and p: "walls p = []" "wall_id_counter p = 100"
  shows "map wall_summary
      (walls (add_room_walls (150, 150 + s, 600, 600 - s, lb)
         (add_room_walls (150, 150, 600, s, la) p))) =
     [(100, (150, 150, 750, 150), False, False),
      (101, (750, 150, 750, 150 + s), False, False),
      (102, (150, 150 + s, 750, 150 + s), True, False),
      (103, (150, 150, 150, 150 + s), False, False),
      (104, (750, 150 + s, 750, 750), False, False),
      (105, (150, 750, 750, 750), False, False),
      (106, (150, 150 + s, 150, 750), False, False)]"
  using s p by (simp add: add_room_walls_def add_wall_def Let_def wall_summary_def)


lemma rooms_add_wall [simp]: "rooms (add_wall x1 y1 x2 y2 rcx rcy p) = rooms p"
  by (simp add: add_wall_def split: option.splits prod.splits)

lemma rooms_add_room_walls [simp]: "rooms (add_room_walls r p) = rooms p"
  by (simp add: add_room_walls_def Let_def split: prod.splits)

lemma split_depth1_square:
  "\<exists>s g1. 64 \<le> s \<and> s \<le> 536
     \<and> recursive_split (150, 150, 600, 600) 1 g = Inr ([(150, 150, 600, s), (150, 150 + s, 600, 600 - s)], g1)"
proof -
  from recursive_split_total obtain ls g' where
    e: "recursive_split (150, 150, 600, 600) 1 g = Inr (ls, g')" by blast
  from e show ?thesis
  proof (cases rule: recursive_split_cases)
    case leaf
    then show ?thesis by simp
  next
    case (wide s g1 l1 g2 l2)
    then show ?thesis by simp
  next
    case (tall s g1 l1 g2 l2)
    from tall(7) have a: "l1 = [(150, 150, 600, s)]" "g2 = g1"
      by (simp_all add: recursive_split_leaf)
    from tall(8) have b: "l2 = [(150, 150 + s, 600, 600 - s)]" "g' = g2"
      by (simp_all add: recursive_split_leaf)
    from e tall(5,6,9) a b show ?thesis by auto
  qed
qed

lemma generate_layout_900_depth1:
  "\<exists>p g' s la lb. generate_layout (init_plan 900 900 off mode 1) g = Inr (p, g')
     \<and> 64 \<le> s \<and> s \<le> 536
     \<and> rooms p = [(150, 150, 600, s, la), (150, 150 + s, 600, 600 - s, lb)]
     \<and> map wall_summary (walls p) =
         [(100, (150, 150, 750, 150), False, False),
          (101, (750, 150, 750, 150 + s), False, False),
          (102, (150, 150 + s, 750, 150 + s), True, False),
          (103, (150, 150, 150, 150 + s), False, False),
          (104, (750, 150 + s, 750, 750), False, False),
          (105, (150, 750, 750, 750), False, False),
          (106, (150, 150 + s, 150, 750), False, False)]"
proof -
  from split_depth1_square obtain s g1 where s: "64 \<le> s" "s \<le> 536"
    and e: "recursive_split (150, 150, 600, 600) 1 g
            = Inr ([(150, 150, 600, s), (150, 150 + s, 600, 600 - s)], g1)"
    by blast
  obtain labels g3 where sh: "shuffle room_labels g1 = (labels, g3)"
    by (cases "shuffle room_labels g1") auto
  from label_rooms_two obtain la lb where
    lr: "label_rooms labels [(150, 150, 600, s), (150, 150 + s, 600, 600 - s)]
         = [(150, 150, 600, s, la), (150, 150 + s, 600, 600 - s, lb)]" by blast
  let ?init = "init_plan 900 900 off mode 1"
  let ?rs = "[(150, 150, 600, s, la), (150, 150 + s, 600, 600 - s, lb)]"
  let ?fin = "add_room_walls (150, 150 + s, 600, 600 - s, lb)
              (add_room_walls (150, 150, 600, s, la) (?init\<lparr>rooms := ?rs\<rparr>))"
  have i: "width ?init = 900" "height ?init = 900" "complexity_depth ?init = 1"
    by (simp_all add: init_plan_def)
  have g: "generate_layout ?init g = Inr (?fin, g3)"
    unfolding generate_layout_def Let_def i by (simp add: e cull_rooms_def sh lr)
  have w0: "walls (?init\<lparr>rooms := ?rs\<rparr>) = []" "wall_id_counter (?init\<lparr>rooms := ?rs\<rparr>) = 100"
    by (simp_all add: init_plan_def)
  have r: "rooms ?fin = ?rs" by simp
  note tw = two_room_walls[OF s w0, of lb la]
  show ?thesis
    by (intro exI conjI) (rule g, rule s(1), rule s(2), rule r, rule tw)
qed

text \<open>
  C2, amended: for every random stream, generating a 900 by 900 plan with complexity depth 1
  produces exactly 2 rooms (hence between 1 and 2) and 7 walls (hence at least 4), and exactly
  one wall is flagged shared: the edge common to the two rooms.
\<close>

theorem depth1_plan_two_rooms_one_shared_wall:
  "\<exists>p g'. generate_layout (init_plan 900 900 off mode 1) g = Inr (p, g')
     \<and> length (rooms p) = 2 \<and> length (walls p) = 7
     \<and> length (filter is_shared (walls p)) = 1"
proof -
  from generate_layout_900_depth1[of off mode g] obtain p g' s la lb where
    e: "generate_layout (init_plan 900 900 off mode 1) g = Inr (p, g')"
    and r: "rooms p = [(150, 150, 600, s, la), (150, 150 + s, 600, 600 - s, lb)]"
    and w: "map wall_summary (walls p) =
         [(100, (150, 150, 750, 150), False, False),
          (101, (750, 150, 750, 150 + s), False, False),
          (102, (150, 150 + s, 750, 150 + s), True, False),
          (103, (150, 150, 150, 150 + s), False, False),
          (104, (750, 150 + s, 750, 750), False, False),
          (105, (150, 750, 750, 750), False, False),
          (106, (150, 150 + s, 150, 750), False, False)]"
    by (elim exE conjE) (rule that)
  from w have "length (map wall_summary (walls p)) = 7" by simp
  then have l: "length (walls p) = 7" by simp
  from w have "map (fst \<circ> snd \<circ> snd) (map wall_summary (walls p))
      = [False, False, True, False, False, False, False]" by simp
  then have m: "map is_shared (walls p) = [False, False, True, False, False, False, False]"
    by (simp add: wall_summary_def comp_def)
  have "length (filter is_shared (walls p)) = length (filter id (map is_shared (walls p)))"
    by (simp add: filter_map comp_def)
  with m have f: "length (filter is_shared (walls p)) = 1" by simp
  from e r l f show ?thesis by auto
qed

theorem depth1_plan_two_rooms_one_shared_wall_witness:
  "\<exists>p g'. generate_layout (init_plan 900 900 25 Mm 1) (sconst 0) = Inr (p, g')
     \<and> length (rooms p) = 2 \<and> length (walls p) = 7
     \<and> length (filter is_shared (walls p)) = 1"
  by (rule depth1_plan_two_rooms_one_shared_wall)

lemma generate_layout_seed0:
  "map is_shared (walls (fst (projr (generate_layout (init_plan 900 900 25 Mm 1) (sconst 0)))))
   = [False, False, True, False, False, False, False]"
proof -
  from generate_layout_900_depth1[of 25 Mm "sconst 0"] obtain p g' s where
    e: "generate_layout (init_plan 900 900 25 Mm 1) (sconst 0) = Inr (p, g')"
    and w: "map wall_summary (walls p) =
         [(100, (150, 150, 750, 150), False, False),
          (101, (750, 150, 750, 150 + s), False, False),
          (102, (150, 150 + s, 750, 150 + s), True, False),
          (103, (150, 150, 150, 150 + s), False, False),
          (104, (750, 150 + s, 750, 750), False, False),
          (105, (150, 750, 750, 750), False, False),
          (106, (150, 150 + s, 150, 750), False, False)]"
    by (elim exE conjE) (rule that)
  from w have "map (fst \<circ> snd \<circ> snd) (map wall_summary (walls p))
      = [False, False, True, False, False, False, False]" by simp
  then have "map is_shared (walls p) = [False, False, True, False, False, False, False]"
    by (simp add: wall_summary_def comp_def)
  with e show ?thesis by simp
qed

text \<open>
  C2 as stated fails: with every draw equal to 0 the final wall list of the depth-1 plan holds
  one wall flagged shared, not zero.
\<close>

theorem depth1_plan_shared_wall_counterexample:
  "length (filter is_shared
     (walls (fst (projr (generate_layout (init_plan 900 900 25 Mm 1) (sconst 0)))))) = 1"
proof -
  have "length (filter is_shared (walls (fst (projr (generate_layout (init_plan 900 900 25 Mm 1) (sconst 0))))))
    = length (filter id (map is_shared (walls (fst (projr (generate_layout (init_plan 900 900 25 Mm 1) (sconst 0)))))))"
    by (simp add: filter_map comp_def)
  then show ?thesis unfolding generate_layout_seed0 by simp
qed

section \<open>Properties of the dimension annotator\<close>

lemma line_crosses_walls_step:
  assumes "wid w \<noteq> my" and "coords w = (wx1, wy1, wx2, wy2)"
  shows "line_crosses_walls (x1, y1) (x2, y2) my (w # ws)
         \<longleftrightarrow> perp_cross (x1, y1, x2, y2) w \<or> line_crosses_walls (x1, y1) (x2, y2) my ws"
proof -
  define PX where "PX \<longleftrightarrow> min x1 x2 > max wx1 wx2 \<or> max x1 x2 < min wx1 wx2"
  define PY where "PY \<longleftrightarrow> min y1 y2 > max wy1 wy2 \<or> max y1 y2 < min wy1 wy2"
  define H where "H \<longleftrightarrow> \<bar>y1 - y2\<bar> < 1"
  define WH where "WH \<longleftrightarrow> \<bar>wy1 - wy2\<bar> < 5"
  define C1 where "C1 \<longleftrightarrow> min x1 x2 < wx1 \<and> wx1 < max x1 x2 \<and> min wy1 wy2 < y1 \<and> y1 < max wy1 wy2"
  define C2 where "C2 \<longleftrightarrow> min y1 y2 < wy1 \<and> wy1 < max y1 y2 \<and> min wx1 wx2 < x1 \<and> x1 < max wx1 wx2"
  define R where "R \<longleftrightarrow> line_crosses_walls (x1, y1) (x2, y2) my ws"
  have step: "line_crosses_walls (x1, y1) (x2, y2) my (w # ws) =
      (if PX then R else if PY then R
       else if H \<and> \<not> WH then (if C1 then True else R)
       else if \<not> H \<and> WH then (if C2 then True else R) else R)"
    using assms unfolding PX_def PY_def H_def WH_def C1_def C2_def R_def
    by (simp only: line_crosses_walls.simps if_False prod.case Let_def)
  have pc: "perp_cross (x1, y1, x2, y2) w \<longleftrightarrow> (H \<and> \<not> WH \<and> C1) \<or> (\<not> H \<and> WH \<and> C2)"
    unfolding perp_cross_def assms(2) H_def WH_def C1_def C2_def by simp
  have "min x1 x2 < wx1 \<Longrightarrow> wx1 < max x1 x2 \<Longrightarrow> \<not> PX" unfolding PX_def by linarith
  then have x1: "C1 \<Longrightarrow> \<not> PX" unfolding C1_def by blast
  have "min wy1 wy2 < y1 \<Longrightarrow> y1 < max wy1 wy2 \<Longrightarrow> \<not> PY" unfolding PY_def by linarith
  then have y1: "C1 \<Longrightarrow> \<not> PY" unfolding C1_def by blast
  have "min y1 y2 < wy1 \<Longrightarrow> wy1 < max y1 y2 \<Longrightarrow> \<not> PY" unfolding PY_def by linarith
  then have y2: "C2 \<Longrightarrow> \<not> PY" unfolding C2_def by blast
  have "min wx1 wx2 < x1 \<Longrightarrow> x1 < max wx1 wx2 \<Longrightarrow> \<not> PX" unfolding PX_def by linarith
  then have x2: "C2 \<Longrightarrow> \<not> PX" unfolding C2_def by blast
  from x1 y1 x2 y2 have "(if PX then R else if PY then R
       else if H \<and> \<not> WH then (if C1 then True else R)
       else if \<not> H \<and> WH then (if C2 then True else R) else R)
     \<longleftrightarrow> ((H \<and> \<not> WH \<and> C1) \<or> (\<not> H \<and> WH \<and> C2)) \<or> R"
    by (cases PX; cases PY; cases H; cases WH; cases C1; cases C2; simp)
  with step pc show ?thesis unfolding R_def by simp
qed

lemma line_crosses_walls_iff:
  "line_crosses_walls (x1, y1) (x2, y2) my ws
   \<longleftrightarrow> (\<exists>w \<in> set ws. wid w \<noteq> my \<and> perp_cross (x1, y1, x2, y2) w)"
proof (induction ws)
  case Nil
  show ?case by simp
next
  case (Cons w ws)
  obtain wx1 wy1 wx2 wy2 where c: "coords w = (wx1, wy1, wx2, wy2)" by (cases "coords w") auto
  show ?case
  proof (cases "wid w = my")
    case True
    with Cons show ?thesis by simp
  next
    case False
    from line_crosses_walls_step[OF False c] Cons False show ?thesis by auto
  qed
qed

lemma extends_with_refl: "extends_with p p Q"
  by (simp add: extends_with_def)

lemma extends_with_trans:
  "extends_with p p1 Q \<Longrightarrow> extends_with p1 p2 Q \<Longrightarrow> extends_with p p2 Q"
  by (auto simp: extends_with_def)

lemma extends_with_mono:
  "extends_with p p' Q \<Longrightarrow> (\<And>d. Q d \<Longrightarrow> R d) \<Longrightarrow> extends_with p p' R"
  by (auto simp: extends_with_def list_all_iff)

lemma draw_dimension_safe_rejects:
  "line_crosses_walls (x1, y1) (x2, y2) owner (walls p)
   \<or> check_collision (sim_bbox x1 y1 x2 y2 t) (text_bboxes p)
   \<Longrightarrow> draw_dimension_safe render x1 y1 x2 y2 t l owner p g = (p, g)"
  by (auto simp: draw_dimension_safe_def)

lemma draw_dimension_safe_extends:
  assumes "draw_dimension_safe render x1 y1 x2 y2 t l owner p g = (p', g')"
  shows "extends_with p p' (\<lambda>d. link d = l \<and> line_clear owner (walls p) d)"
proof (cases "line_crosses_walls (x1, y1) (x2, y2) owner (walls p)
              \<or> check_collision (sim_bbox x1 y1 x2 y2 t) (text_bboxes p)")
  case True
  from draw_dimension_safe_rejects[OF True] assms have "p' = p" by simp
  then show ?thesis by (simp add: extends_with_refl)
next
  case False
  then have a: "\<not> line_crosses_walls (x1, y1) (x2, y2) owner (walls p)"
    and b: "\<not> check_collision (sim_bbox x1 y1 x2 y2 t) (text_bboxes p)" by auto
  obtain pos g1 where c: "choices_pos g = (pos, g1)" by (cases "choices_pos g") auto
  obtain tx ty where an: "text_anchor pos (\<bar>x1 - x2\<bar> < 1) (real_of_int (x1 + x2) / 2)
      (real_of_int (y1 + y2) / 2) = (tx, ty)"
    by (cases "text_anchor pos (\<bar>x1 - x2\<bar> < 1) (real_of_int (x1 + x2) / 2)
      (real_of_int (y1 + y2) / 2)") auto
  obtain bx0 by0 bx1 by1 where r: "render tx ty t (if \<bar>x1 - x2\<bar> < 1 then 90 else 0)
      = (bx0, by0, bx1, by1)"
    by (cases "render tx ty t (if \<bar>x1 - x2\<bar> < 1 then 90 else 0)") auto
  from assms have p': "p' = p\<lparr>text_bboxes := text_bboxes p @ [(bx0, by0, bx1, by1)],
        dimensions := dimensions p @
          [\<lparr>dim_id = dim_id_counter p, val = t, position = pos,
            bbox = (py_int bx0, py_int (real_of_int (height p) - by1),
                    py_int bx1, py_int (real_of_int (height p) - by0)),
            dim_line = (x1, y1, x2, y2), link = l\<rparr>],
        dim_id_counter := dim_id_counter p + 1\<rparr>"
    unfolding draw_dimension_safe_def Let_def c prod.case an r using a b by simp
  show ?thesis unfolding p' using a by (simp add: extends_with_def line_clear_def)
qed

lemma draw_segments_extends:
  assumes "draw_segments render dx dy owner segs p g = (p', g')"
    and "\<forall>seg \<in> set segs. L (snd (snd (snd (snd seg))))"
  shows "extends_with p p' (\<lambda>d. L (link d) \<and> line_clear owner (walls p) d)"
  using assms
proof (induction segs arbitrary: p g)
  case Nil
  then show ?case by (simp add: extends_with_refl)
next
  case (Cons seg segs)
  obtain sx1 sy1 sx2 sy2 l where seg: "seg = (sx1, sy1, sx2, sy2, l)" by (cases seg) auto
  let ?len = "hypot (real_of_int (sx2 - sx1)) (real_of_int (sy2 - sy1))"
  show ?case
  proof (cases "?len < 5")
    case True
    with Cons.prems seg have "draw_segments render dx dy owner segs p g = (p', g')"
      by (simp add: Let_def)
    with Cons.IH Cons.prems(2) show ?thesis by simp
  next
    case False
    obtain p1 g1 where d: "draw_dimension_safe render (sx1 + dx) (sy1 + dy) (sx2 + dx) (sy2 + dy)
        (format_value (unit_mode p) ?len) l owner p g = (p1, g1)"
      by (cases "draw_dimension_safe render (sx1 + dx) (sy1 + dy) (sx2 + dx) (sy2 + dy)
        (format_value (unit_mode p) ?len) l owner p g") auto
    with Cons.prems seg False have r: "draw_segments render dx dy owner segs p1 g1 = (p', g')"
      by (simp add: Let_def)
    from draw_dimension_safe_extends[OF d] Cons.prems(2) seg
    have a: "extends_with p p1 (\<lambda>d. L (link d) \<and> line_clear owner (walls p) d)"
      by (auto elim: extends_with_mono)
    then have w: "walls p1 = walls p" by (simp add: extends_with_def)
    from Cons.IH[OF r] Cons.prems(2)
    have "extends_with p1 p' (\<lambda>d. L (link d) \<and> line_clear owner (walls p1) d)" by simp
    with a w show ?thesis by (auto intro: extends_with_trans)
  qed
qed

end
